theory Spec2Isabelle
  imports Complex_Main "HOL-Library.AList"
begin

section \<open>The rate limiter of packages/lib: data model\<close>

text \<open>
  The model follows the rate-limiting module (the third part of
  \<^verbatim>\<open>src/packages/lib/envValidation.ts\<close>, lines 205 to 331).

  Numbers. \<^verbatim>\<open>Date.now()\<close>, \<^verbatim>\<open>windowMs\<close>, \<^verbatim>\<open>maxRequests\<close> and the counter are
  JavaScript numbers holding integers; they are modelled as \<^typ>\<open>int\<close>. This is exact as
  long as every value stays inside the safe-integer range (below \<open>2^53\<close> in magnitude),
  where addition, subtraction, comparison and \<^verbatim>\<open>Math.ceil(x / 1000)\<close> of the double
  arithmetic agree with the integers.

  The clock. \<^verbatim>\<open>Date.now()\<close> is an input of every operation (\<open>now\<close>).
\<close>

text \<open>\<^verbatim>\<open>interface RequestCount { count: number; resetTime: number }\<close>\<close>

record RequestCount =
  count :: int
  resetTime :: int

text \<open>
  \<^verbatim>\<open>const store = new Map<string, RequestCount>()\<close>: one module-level map. A JavaScript
  \<^verbatim>\<open>Map\<close> keeps its entries in insertion order with one entry per key; it is an association
  list here, read with \<^const>\<open>map_of\<close>, written with \<^const>\<open>AList.update\<close> (replace in place,
  or append) and \<^const>\<open>AList.delete\<close>.
\<close>

type_synonym store = "(string \<times> RequestCount) list"

text \<open>The fields of \<^verbatim>\<open>NextApiRequest\<close> that the module reads (\<open>req_method\<close> is the
  request's \<^verbatim>\<open>method\<close> field).\<close>

record NextApiRequest =
  remoteAddress :: "string option"
  url :: "string option"
  req_method :: "string option"
  userAgent :: "string option"

text \<open>A thrown JavaScript exception, as a value.\<close>

datatype thrown = Thrown string

text \<open>
  The body written by \<^verbatim>\<open>res.status(429).json({error, message, retryAfter})\<close>. The message
  is a template string interpolating \<^verbatim>\<open>maxRequests\<close> and \<^verbatim>\<open>windowMs / 1000\<close>; the model keeps
  the two interpolated numbers (\<open>maxRequests\<close> and \<open>windowMs\<close>) instead of rendering text.
\<close>

datatype message = RateLimitExceededMessage int int

record json_body =
  error :: string
  message :: message
  retryAfter :: int

text \<open>
  The part of \<^verbatim>\<open>NextApiResponse\<close> the module writes: the status, the headers set by
  \<^verbatim>\<open>res.setHeader\<close> (all three values are numbers), and the JSON body once sent.
\<close>

record NextApiResponse =
  statusCode :: int
  headers :: "(string \<times> int) list"
  body :: "json_body option"

definition new_response :: NextApiResponse where
  "new_response = \<lparr>statusCode = 200, headers = [], body = None\<rparr>"

definition setHeader :: "string \<Rightarrow> int \<Rightarrow> NextApiResponse \<Rightarrow> NextApiResponse" where
  "setHeader name v res = res\<lparr>headers := AList.update name v (headers res)\<rparr>"

definition status_json :: "int \<Rightarrow> json_body \<Rightarrow> NextApiResponse \<Rightarrow> NextApiResponse" where
  "status_json code b res = res\<lparr>statusCode := code, body := Some b\<rparr>"

text \<open>The object passed to \<^verbatim>\<open>logger.warn\<close>.\<close>

record log_event =
  log_key :: string
  log_count :: int
  log_maxRequests :: int
  log_windowMs :: int
  log_url :: "string option"
  log_method :: "string option"
  log_userAgent :: "string option"

text \<open>
  \<^verbatim>\<open>logger.warn(obj, msg)\<close> is an imported collaborator: it returns, or it throws
  (\<open>Some e\<close>).
\<close>

type_synonym logger = "log_event \<Rightarrow> string \<Rightarrow> thrown option"

text \<open>
  \<^verbatim>\<open>onRateLimitReached?: (req, res) => void\<close>: a caller-supplied hook; it may write to
  the response and it may throw. It returns the response as it left it, and the exception
  if it threw. (A hook that already sends the response, so that the later
  \<^verbatim>\<open>res.status(429).json\<close> would fail, is outside the model.)
\<close>

type_synonym hook = "NextApiRequest \<Rightarrow> NextApiResponse \<Rightarrow> NextApiResponse \<times> thrown option"

text \<open>\<^verbatim>\<open>interface RateLimitOptions\<close>; the optional fields are options.\<close>

record RateLimitOptions =
  windowMs :: int
  maxRequests :: int
  skipSuccessfulRequests :: "bool option"
  skipFailedRequests :: "bool option"
  keyGenerator :: "(NextApiRequest \<Rightarrow> string) option"
  onRateLimitReached :: "hook option"

text \<open>
  How one call of the middleware ends: the async function throws (its promise rejects),
  it returns after sending the 429 response without calling \<^verbatim>\<open>next\<close>, or it calls
  \<^verbatim>\<open>next()\<close>.
\<close>

datatype outcome = Rejected thrown | Responded | NextCalled

section \<open>The middleware\<close>

text \<open>The default \<^verbatim>\<open>keyGenerator = (req) => req.socket.remoteAddress || 'unknown'\<close>
  (an empty string is falsy).\<close>

definition default_keyGenerator :: "NextApiRequest \<Rightarrow> string" where
  "default_keyGenerator req =
     (case remoteAddress req of
        None \<Rightarrow> ''unknown''
      | Some a \<Rightarrow> if a = [] then ''unknown'' else a)"

text \<open>Line 247, \<^verbatim>\<open>const key = keyGenerator(req)\<close>, with the default of line 242 when the
  option is absent.\<close>

definition key_of :: "RateLimitOptions \<Rightarrow> NextApiRequest \<Rightarrow> string" where
  "key_of options req =
     (case keyGenerator options of
        None \<Rightarrow> default_keyGenerator req
      | Some g \<Rightarrow> g req)"

text \<open>\<^verbatim>\<open>Math.ceil(x / 1000)\<close> on an integer \<open>x\<close>, by integer division.\<close>

definition ceil_div_1000 :: "int \<Rightarrow> int" where
  "ceil_div_1000 x = - ((- x) div 1000)"

text \<open>
  Lines 252 to 261: read the record of the key; when there is none, or when
  \<^verbatim>\<open>now > requestCount.resetTime\<close>, create the new window and store it.
\<close>

definition get_or_create :: "int \<Rightarrow> string \<Rightarrow> int \<Rightarrow> store \<Rightarrow> RequestCount \<times> store" where
  "get_or_create wMs key now st =
     (case map_of st key of
        None \<Rightarrow>
          (\<lparr>count = 0, resetTime = now + wMs\<rparr>,
           AList.update key \<lparr>count = 0, resetTime = now + wMs\<rparr> st)
      | Some requestCount \<Rightarrow>
          if now > resetTime requestCount
          then (\<lparr>count = 0, resetTime = now + wMs\<rparr>,
                AList.update key \<lparr>count = 0, resetTime = now + wMs\<rparr> st)
          else (requestCount, st))"

text \<open>Lines 268 to 276: the object given to \<^verbatim>\<open>logger.warn\<close>.\<close>

definition warn_event :: "string \<Rightarrow> int \<Rightarrow> int \<Rightarrow> int \<Rightarrow> NextApiRequest \<Rightarrow> log_event" where
  "warn_event key cnt maxReq wMs req =
     \<lparr>log_key = key, log_count = cnt, log_maxRequests = maxReq, log_windowMs = wMs,
      log_url = url req, log_method = req_method req, log_userAgent = userAgent req\<rparr>"

text \<open>
  Lines 246 to 297, the function returned by \<^verbatim>\<open>rateLimit(options)\<close>. The record fetched
  from the map is the object stored in it, so \<^verbatim>\<open>requestCount.count++\<close> changes the stored
  record: the model writes the incremented record back. The two skip flags and
  \<^verbatim>\<open>windowStart\<close> are bound as in the source.
\<close>

definition rateLimit ::
  "RateLimitOptions \<Rightarrow> logger \<Rightarrow> store \<Rightarrow> int \<Rightarrow> NextApiRequest \<Rightarrow> NextApiResponse
     \<Rightarrow> store \<times> NextApiResponse \<times> outcome" where
  "rateLimit options logger_warn st now req res =
     (let wMs = windowMs options;
          maxReq = maxRequests options;
          skipSuccessful = (case skipSuccessfulRequests options of None \<Rightarrow> False | Some b \<Rightarrow> b);
          skipFailed = (case skipFailedRequests options of None \<Rightarrow> False | Some b \<Rightarrow> b);
          key = key_of options req;
          windowStart = now - wMs;
          got = get_or_create wMs key now st;
          requestCount = (fst got)\<lparr>count := count (fst got) + 1\<rparr>;
          st' = AList.update key requestCount (snd got)
      in if count requestCount > maxReq then
           (case logger_warn (warn_event key (count requestCount) maxReq wMs req)
                   ''Rate limit exceeded'' of
              Some e \<Rightarrow> (st', res, Rejected e)
            | None \<Rightarrow>
               (case (case onRateLimitReached options of
                        None \<Rightarrow> (res, None)
                      | Some h \<Rightarrow> h req res) of
                  (res1, Some e) \<Rightarrow> (st', res1, Rejected e)
                | (res1, None) \<Rightarrow>
                    (st',
                     status_json 429
                       \<lparr>error = ''Too many requests'',
                        message = RateLimitExceededMessage maxReq wMs,
                        retryAfter = ceil_div_1000 (resetTime requestCount - now)\<rparr> res1,
                     Responded)))
         else
           (st',
            setHeader ''X-RateLimit-Reset'' (resetTime requestCount)
              (setHeader ''X-RateLimit-Remaining'' (max 0 (maxReq - count requestCount))
                (setHeader ''X-RateLimit-Limit'' maxReq res)),
            NextCalled))"

section \<open>The sweeper\<close>

text \<open>
  Lines 226 to 234, the body of the interval callback: a snapshot of the entries is
  taken, and every entry with \<^verbatim>\<open>now > value.resetTime\<close> is deleted from the map.
\<close>

fun sweep_entries :: "int \<Rightarrow> (string \<times> RequestCount) list \<Rightarrow> store \<Rightarrow> store" where
  "sweep_entries now [] st = st"
| "sweep_entries now ((key, v) # entries) st =
     sweep_entries now entries (if now > resetTime v then AList.delete key st else st)"

definition sweep :: "int \<Rightarrow> store \<Rightarrow> store" where
  "sweep now st = sweep_entries now st st"

section \<open>The pre-configured limiters\<close>

definition mk_options :: "int \<Rightarrow> int \<Rightarrow> RateLimitOptions" where
  "mk_options w m =
     \<lparr>windowMs = w, maxRequests = m, skipSuccessfulRequests = None,
      skipFailedRequests = None, keyGenerator = None, onRateLimitReached = None\<rparr>"

definition apiRateLimit :: RateLimitOptions where
  "apiRateLimit = mk_options (15 * 60 * 1000) 100"

definition authRateLimit :: RateLimitOptions where
  "authRateLimit = mk_options (15 * 60 * 1000) 5"



section \<open>Runs of the module\<close>

text \<open>
  The module's state is its one store. An event is a call of one of the middlewares
  (with its options, the request and the clock reading; each request comes with its own
  new response object) or a tick of the sweeper. A run threads the store through the
  events and collects what each middleware call did.
\<close>

datatype event = Check RateLimitOptions NextApiRequest int | Tick int

fun run :: "logger \<Rightarrow> event list \<Rightarrow> store \<Rightarrow> store \<times> (NextApiResponse \<times> outcome) list" where
  "run lg [] st = (st, [])"
| "run lg (Check options req now # evs) st =
     (case rateLimit options lg st now req new_response of
        (st', res, out) \<Rightarrow>
          (case run lg evs st' of (st'', outs) \<Rightarrow> (st'', (res, out) # outs)))"
| "run lg (Tick now # evs) st = run lg evs (sweep now st)"

text \<open>A logger that never throws, and a request from a given address.\<close>

definition quiet_logger :: logger where
  "quiet_logger ev msg = None"

definition request_from :: "string \<Rightarrow> NextApiRequest" where
  "request_from a = \<lparr>remoteAddress = Some a, url = None, req_method = None, userAgent = None\<rparr>"

text \<open>What a finished call reports: the remaining-requests header, the retry delay.\<close>

definition remaining_of :: "NextApiResponse \<Rightarrow> int option" where
  "remaining_of res = map_of (headers res) ''X-RateLimit-Remaining''"

definition retryAfter_of :: "NextApiResponse \<Rightarrow> int option" where
  "retryAfter_of res = map_option retryAfter (body res)"

text \<open>A run of calls of one middleware: the requests with their clock readings.\<close>

definition checks_of :: "RateLimitOptions \<Rightarrow> (NextApiRequest \<times> int) list \<Rightarrow> event list" where
  "checks_of options rs = map (\<lambda>rt. Check options (fst rt) (snd rt)) rs"

text \<open>Collaborators that fail, and a hook that does nothing.\<close>

definition failing_logger :: "thrown \<Rightarrow> logger" where
  "failing_logger e ev msg = Some e"

definition throwing_hook :: "thrown \<Rightarrow> hook" where
  "throwing_hook e req res = (res, Some e)"

definition quiet_hook :: hook where
  "quiet_hook req res = (res, None)"

text \<open>
  For statements about runs: the clock reading of an event, whether an event is a call
  for the key \<open>k\<close> with a window length above \<open>w\<close> (calls for other keys and ticks
  pass), and the time of the last call for a key in a run.
\<close>

fun time_of :: "event \<Rightarrow> int" where
  "time_of (Check options req now) = now"
| "time_of (Tick now) = now"

fun key_window_at_most :: "string \<Rightarrow> int \<Rightarrow> event \<Rightarrow> bool" where
  "key_window_at_most k w (Check options req now) =
     (if key_of options req = k then windowMs options \<le> w else True)"
| "key_window_at_most k w (Tick now) = True"

fun last_seen :: "string \<Rightarrow> event list \<Rightarrow> int option" where
  "last_seen k [] = None"
| "last_seen k (Check options req now # evs) =
     (case last_seen k evs of
        Some t \<Rightarrow> Some t
      | None \<Rightarrow> if key_of options req = k then Some now else None)"
| "last_seen k (Tick now # evs) = last_seen k evs"

definition report :: "NextApiResponse \<times> outcome \<Rightarrow> outcome \<times> int option \<times> int option" where
  "report ro = (snd ro, remaining_of (fst ro), retryAfter_of (fst ro))"

section \<open>Basic facts\<close>

lemma ceil_div_1000_ceiling: "ceil_div_1000 x = \<lceil>real_of_int x / 1000\<rceil>"
proof -
  have "\<lfloor>real_of_int (- x) / real_of_int 1000\<rfloor> = (- x) div 1000"
    by (rule floor_divide_of_int_eq)
  then have "\<lfloor>- (real_of_int x / 1000)\<rfloor> = (- x) div 1000"
    by simp
  then show ?thesis
    by (simp add: ceil_div_1000_def ceiling_def)
qed

text \<open>The store after a call does not depend on the logger, the hook or the response.\<close>

lemma rateLimit_store:
  "fst (rateLimit options lg st now req res) =
     AList.update (key_of options req)
       ((fst (get_or_create (windowMs options) (key_of options req) now st))
          \<lparr>count := count (fst (get_or_create (windowMs options) (key_of options req) now st)) + 1\<rparr>)
       (snd (get_or_create (windowMs options) (key_of options req) now st))"
  by (simp add: rateLimit_def Let_def split: option.split prod.split)

lemma rateLimit_other_key:
  "k \<noteq> key_of options req \<Longrightarrow>
   map_of (fst (rateLimit options lg st now req res)) k = map_of st k"
  by (simp add: rateLimit_store update_conv' get_or_create_def split: option.split)

lemma rateLimit_record_fresh:
  "\<forall>rc. map_of st (key_of options req) = Some rc \<longrightarrow> resetTime rc < now \<Longrightarrow>
   map_of (fst (rateLimit options lg st now req res)) (key_of options req) =
     Some \<lparr>count = 1, resetTime = now + windowMs options\<rparr>"
  by (simp add: rateLimit_store update_conv' get_or_create_def split: option.split)

lemma rateLimit_record_live:
  "map_of st (key_of options req) = Some rc \<Longrightarrow> now \<le> resetTime rc \<Longrightarrow>
   map_of (fst (rateLimit options lg st now req res)) (key_of options req) =
     Some (rc\<lparr>count := count rc + 1\<rparr>)"
  by (simp add: rateLimit_store update_conv' get_or_create_def split: option.split)

lemma rateLimit_outcome:
  "map_of (fst (rateLimit options lg st now req res)) (key_of options req) = Some rc \<Longrightarrow>
   snd (snd (rateLimit options lg st now req res)) = NextCalled
     \<longleftrightarrow> count rc \<le> maxRequests options"
  by (auto simp add: rateLimit_def Let_def update_conv' split: option.split prod.split)

lemma remaining_of_setHeader:
  "remaining_of (setHeader ''X-RateLimit-Reset'' r (setHeader ''X-RateLimit-Remaining'' v res'))
     = Some v"
  by (simp add: remaining_of_def setHeader_def update_conv')

lemma rateLimit_remaining:
  "map_of (fst (rateLimit options lg st now req res)) (key_of options req) = Some rc \<Longrightarrow>
   snd (snd (rateLimit options lg st now req res)) = NextCalled \<Longrightarrow>
   remaining_of (fst (snd (rateLimit options lg st now req res)))
     = Some (max 0 (maxRequests options - count rc))"
  by (auto simp add: rateLimit_def Let_def update_conv' remaining_of_setHeader
      split: option.splits prod.splits if_splits)

lemma rateLimit_retryAfter:
  "map_of (fst (rateLimit options lg st now req res)) (key_of options req) = Some rc \<Longrightarrow>
   snd (snd (rateLimit options lg st now req res)) = Responded \<Longrightarrow>
   retryAfter_of (fst (snd (rateLimit options lg st now req res)))
     = Some (ceil_div_1000 (resetTime rc - now))"
  by (auto simp add: rateLimit_def Let_def update_conv' retryAfter_of_def status_json_def
      split: option.splits prod.splits if_splits)

lemma rateLimit_distinct:
  "distinct (map fst st) \<Longrightarrow> distinct (map fst (fst (rateLimit options lg st now req res)))"
  by (simp add: rateLimit_store get_or_create_def distinct_update split: option.split)

lemmas eval_defs =
  rateLimit_def get_or_create_def warn_event_def checks_of_def failing_logger_def
  throwing_hook_def quiet_hook_def mk_options_def request_from_def key_of_def
  default_keyGenerator_def quiet_logger_def new_response_def setHeader_def status_json_def
  remaining_of_def retryAfter_of_def report_def ceil_div_1000_def Let_def

section \<open>The skip flags\<close>

text \<open>
  Claim C10. The options \<^verbatim>\<open>skipSuccessfulRequests\<close> and \<^verbatim>\<open>skipFailedRequests\<close> are
  destructured and never read: whatever values the two flags are given, a call of the
  middleware on the same store, clock reading, request and response yields the same new
  store, the same response (status, headers, body) and the same outcome.
\<close>

theorem skip_flags_never_consulted:
  "rateLimit (options\<lparr>skipSuccessfulRequests := a, skipFailedRequests := b\<rparr>) lg st now req res
     = rateLimit options lg st now req res"
  by (simp add: rateLimit_def key_of_def Let_def cong: if_cong option.case_cong)

section \<open>The scenario of the specification\<close>

text \<open>
  Claim C8, as amended. With \<open>windowMs = 60000\<close> and \<open>maxRequests = 3\<close> on the empty
  store, the calls for key \<open>A\<close> at times 0, 10 and 20 call \<^verbatim>\<open>next\<close> with remaining 2, 1
  and 0; the fourth call at time 30 answers 429 with \<open>retryAfter = 60\<close> (the window
  ends at 60000, and \<open>ceil (59970 / 1000) = 60\<close>); the fifth call at time 61000 calls
  \<^verbatim>\<open>next\<close> with remaining 2.
\<close>

theorem scenario_three_per_minute:
  "map report (snd (run quiet_logger
      [Check (mk_options 60000 3) (request_from ''A'') 0,
       Check (mk_options 60000 3) (request_from ''A'') 10,
       Check (mk_options 60000 3) (request_from ''A'') 20,
       Check (mk_options 60000 3) (request_from ''A'') 30,
       Check (mk_options 60000 3) (request_from ''A'') 61000] []))
   = [(NextCalled, Some 2, None), (NextCalled, Some 1, None), (NextCalled, Some 0, None),
      (Responded, None, Some 60), (NextCalled, Some 2, None)]"
  by (simp add: eval_defs)

text \<open>
  Claim C8 as stated gives \<open>retryAfterSeconds = 30\<close> for the fourth call; the code
  answers 60.
\<close>

theorem scenario_retryAfter_is_not_30:
  "map report (snd (run quiet_logger
      [Check (mk_options 60000 3) (request_from ''A'') 0,
       Check (mk_options 60000 3) (request_from ''A'') 10,
       Check (mk_options 60000 3) (request_from ''A'') 20,
       Check (mk_options 60000 3) (request_from ''A'') 30,
       Check (mk_options 60000 3) (request_from ''A'') 61000] []))
   \<noteq> [(NextCalled, Some 2, None), (NextCalled, Some 1, None), (NextCalled, Some 0, None),
      (Responded, None, Some 30), (NextCalled, Some 2, None)]"
  by (simp add: eval_defs)

section \<open>One store for all limiters\<close>

text \<open>
  Claim C1. The claim is that each pre-configured limiter counts in a store of its own,
  so that calls of one limiter never change what another limiter decides. The module
  has a single \<^verbatim>\<open>store\<close>, declared outside \<^verbatim>\<open>rateLimit\<close>, and every limiter reads and
  writes it under the same key (the remote address). Evaluated on the code: after five
  calls of \<^verbatim>\<open>apiRateLimit\<close> from one address, the first call of \<^verbatim>\<open>authRateLimit\<close> from
  that address finds the count at 5, raises it to 6 and answers 429, whereas on its own
  the same call is let through with 4 attempts remaining.
\<close>

theorem shared_store_first_login_denied:
  "map report (snd (run quiet_logger
      [Check apiRateLimit (request_from ''10.0.0.7'') 0,
       Check apiRateLimit (request_from ''10.0.0.7'') 1,
       Check apiRateLimit (request_from ''10.0.0.7'') 2,
       Check apiRateLimit (request_from ''10.0.0.7'') 3,
       Check apiRateLimit (request_from ''10.0.0.7'') 4,
       Check authRateLimit (request_from ''10.0.0.7'') 5] []))
     = [(NextCalled, Some 99, None), (NextCalled, Some 98, None), (NextCalled, Some 97, None),
        (NextCalled, Some 96, None), (NextCalled, Some 95, None), (Responded, None, Some 900)]
   \<and> map report (snd (run quiet_logger
      [Check authRateLimit (request_from ''10.0.0.7'') 5] []))
     = [(NextCalled, Some 4, None)]"
  by (simp add: eval_defs apiRateLimit_def authRateLimit_def)



section \<open>The boundary instant\<close>

text \<open>
  Claim C4 as stated: at \<open>now = resetTime\<close> the call installs a new record. The test of
  the code is \<^verbatim>\<open>now > requestCount.resetTime\<close>, which is false at the boundary: with the
  record \<open>(count = 1, resetTime = 60000)\<close> and the clock at 60000 the record becomes
  \<open>(count = 2, resetTime = 60000)\<close>, not a new window ending at 120000.
\<close>

theorem boundary_instant_not_renewed:
  "map_of (fst (rateLimit (mk_options 60000 3) quiet_logger
        [(''A'', \<lparr>count = 1, resetTime = 60000\<rparr>)] 60000 (request_from ''A'') new_response)) ''A''
     = Some \<lparr>count = 2, resetTime = 60000\<rparr>
   \<and> map_of (fst (rateLimit (mk_options 60000 3) quiet_logger
        [(''A'', \<lparr>count = 1, resetTime = 60000\<rparr>)] 60000 (request_from ''A'') new_response)) ''A''
     \<noteq> Some \<lparr>count = 1, resetTime = 120000\<rparr>"
  by (simp add: eval_defs)

text \<open>
  Claim C4, as amended. For every key whose stored record has \<open>resetTime\<close> equal to the
  current time, the call keeps that record and increments its count: the boundary
  instant belongs to the old window.
\<close>

theorem boundary_instant_in_old_window:
  assumes "map_of st (key_of options req) = Some rc" and "resetTime rc = now"
  shows "map_of (fst (rateLimit options lg st now req res)) (key_of options req)
           = Some \<lparr>count = count rc + 1, resetTime = now\<rparr>"
  using rateLimit_record_live [of st options req rc now lg res] assms by simp

theorem boundary_instant_in_old_window_witness:
  "map_of [(''A'', \<lparr>count = 3, resetTime = 60000\<rparr>)] (key_of (mk_options 60000 3) (request_from ''A''))
      = Some \<lparr>count = 3, resetTime = 60000\<rparr>
   \<and> resetTime \<lparr>count = 3, resetTime = 60000\<rparr> = 60000
   \<and> map_of (fst (rateLimit (mk_options 60000 3) quiet_logger
        [(''A'', \<lparr>count = 3, resetTime = 60000\<rparr>)] 60000 (request_from ''A'') new_response))
        (key_of (mk_options 60000 3) (request_from ''A''))
      = Some \<lparr>count = count \<lparr>count = 3, resetTime = 60000\<rparr> + 1, resetTime = 60000\<rparr>"
proof -
  have k: "map_of [(''A'', \<lparr>count = 3, resetTime = 60000\<rparr>)]
             (key_of (mk_options 60000 3) (request_from ''A''))
           = Some \<lparr>count = 3, resetTime = 60000\<rparr>"
    by (simp add: key_of_def mk_options_def request_from_def default_keyGenerator_def)
  have r: "resetTime \<lparr>count = 3, resetTime = 60000\<rparr> = 60000" by simp
  show ?thesis
    using k r boundary_instant_in_old_window [OF k r, of quiet_logger new_response] by simp
qed

section \<open>Renewal of the window\<close>

text \<open>
  Claim C5 as stated: for every policy, the first call after \<open>resetTime\<close> is let
  through. With \<open>maxRequests = 0\<close> the new count 1 exceeds the ceiling and the call is
  answered with 429.
\<close>

theorem zero_ceiling_denies_after_expiry:
  "snd (snd (rateLimit (mk_options 1000 0) quiet_logger
        [(''A'', \<lparr>count = 5, resetTime = 100\<rparr>)] 101 (request_from ''A'') new_response))
     = Responded"
  by (simp add: eval_defs)

text \<open>
  Claim C5, as amended. For every policy and every key whose record is absent or has
  \<open>resetTime < now\<close>, whatever its count was, the call installs a new record, whose
  count after the call is 1 and whose \<open>resetTime\<close> is \<open>now + windowMs\<close>; the call is let
  through exactly when \<open>maxRequests\<close> is at least 1, and then the remaining-requests
  header is \<open>maxRequests - 1\<close>.
\<close>

theorem renewal_after_expiry:
  assumes "\<forall>rc. map_of st (key_of options req) = Some rc \<longrightarrow> resetTime rc < now"
  shows "map_of (fst (rateLimit options lg st now req res)) (key_of options req)
           = Some \<lparr>count = 1, resetTime = now + windowMs options\<rparr>
         \<and> (snd (snd (rateLimit options lg st now req res)) = NextCalled
              \<longleftrightarrow> 1 \<le> maxRequests options)
         \<and> (1 \<le> maxRequests options \<longrightarrow>
              remaining_of (fst (snd (rateLimit options lg st now req res)))
                = Some (maxRequests options - 1))"
proof -
  let ?r = "rateLimit options lg st now req res"
  have rec: "map_of (fst ?r) (key_of options req)
               = Some \<lparr>count = 1, resetTime = now + windowMs options\<rparr>"
    using assms by (rule rateLimit_record_fresh)
  have out: "snd (snd ?r) = NextCalled \<longleftrightarrow> 1 \<le> maxRequests options"
    using rateLimit_outcome [OF rec] by simp
  have rem: "1 \<le> maxRequests options \<longrightarrow>
               remaining_of (fst (snd ?r)) = Some (maxRequests options - 1)"
    using rateLimit_remaining [OF rec] out by simp
  from rec out rem show ?thesis by blast
qed

theorem renewal_after_expiry_witness:
  "map_of (fst (rateLimit (mk_options 60000 3) quiet_logger
        [(''A'', \<lparr>count = 9, resetTime = 60000\<rparr>)] 60001 (request_from ''A'') new_response))
        (key_of (mk_options 60000 3) (request_from ''A''))
      = Some \<lparr>count = 1, resetTime = 120001\<rparr>
   \<and> snd (snd (rateLimit (mk_options 60000 3) quiet_logger
        [(''A'', \<lparr>count = 9, resetTime = 60000\<rparr>)] 60001 (request_from ''A'') new_response))
      = NextCalled
   \<and> remaining_of (fst (snd (rateLimit (mk_options 60000 3) quiet_logger
        [(''A'', \<lparr>count = 9, resetTime = 60000\<rparr>)] 60001 (request_from ''A'') new_response)))
      = Some 2"
proof -
  have h: "\<forall>rc. map_of [(''A'', \<lparr>count = 9, resetTime = 60000\<rparr>)]
            (key_of (mk_options 60000 3) (request_from ''A'')) = Some rc
          \<longrightarrow> resetTime rc < 60001"
    by (simp add: key_of_def mk_options_def request_from_def default_keyGenerator_def)
  have m: "maxRequests (mk_options 60000 3) = 3" "windowMs (mk_options 60000 3) = 60000"
    by (simp_all add: mk_options_def)
  show ?thesis
    using renewal_after_expiry [OF h, of quiet_logger new_response] m by simp
qed

section \<open>Counting inside one window\<close>

lemma live_window_counts:
  "map_of st k = Some rc \<Longrightarrow>
   \<forall>rt \<in> set rs. key_of options (fst rt) = k \<and> snd rt \<le> resetTime rc \<Longrightarrow>
   n < length rs \<Longrightarrow>
   (snd (snd (run lg (checks_of options rs) st) ! n) = NextCalled
      \<longleftrightarrow> count rc + int n + 1 \<le> maxRequests options)
   \<and> (snd (snd (run lg (checks_of options rs) st) ! n) = NextCalled \<longrightarrow>
        remaining_of (fst (snd (run lg (checks_of options rs) st) ! n))
          = Some (max 0 (maxRequests options - (count rc + int n + 1))))"
proof (induction rs arbitrary: st rc n)
  case Nil
  then show ?case by simp
next
  case (Cons rt rs)
  let ?R = "rateLimit options lg st (snd rt) (fst rt) new_response"
  let ?rc' = "rc\<lparr>count := count rc + 1\<rparr>"
  from Cons.prems have key: "key_of options (fst rt) = k" and live: "snd rt \<le> resetTime rc"
    by simp_all
  have rec: "map_of (fst ?R) (key_of options (fst rt)) = Some ?rc'"
    using rateLimit_record_live [of st options "fst rt" rc "snd rt" lg new_response]
      Cons.prems(1) live key by simp
  have unf: "snd (run lg (checks_of options (rt # rs)) st)
                  = snd ?R # snd (run lg (checks_of options rs) (fst ?R))"
    by (simp add: checks_of_def split: prod.split)
  show ?case
  proof (cases n)
    case 0
    show ?thesis
      using rateLimit_outcome [OF rec] rateLimit_remaining [OF rec]
      by (simp add: unf 0)
  next
    case (Suc m)
    have rec': "map_of (fst ?R) k = Some ?rc'" using rec key by simp
    have rest: "\<forall>rt \<in> set rs. key_of options (fst rt) = k \<and> snd rt \<le> resetTime ?rc'"
      using Cons.prems(2) by simp
    have m: "m < length rs" using Cons.prems(3) Suc by simp
    have arith: "count ?rc' + int m + 1 = count rc + int n + 1" using Suc by simp
    show ?thesis
      using Cons.IH [OF rec' rest m] by (simp add: unf Suc add.commute add.left_commute)
  qed
qed

text \<open>
  What holds for a key that a single limiter counts, with no other event in between.
  A call at time \<open>t0\<close> opens a window for its key (the key had no record, or
  an expired one), and further calls for that key under the same options arrive no later
  than the end of that window, \<open>t0 + windowMs\<close>. Then the call number \<open>n + 1\<close> of the window
  is let through if and only if \<open>n + 1 \<le> maxRequests\<close>, and a call let through reports
  \<open>remaining = maxRequests - (n + 1)\<close>, which is not negative.
\<close>

theorem nth_check_in_window:
  assumes first: "\<forall>rc. map_of st (key_of options r0) = Some rc \<longrightarrow> resetTime rc < t0"
      and rest: "\<forall>rt \<in> set rs. key_of options (fst rt) = key_of options r0
                   \<and> snd rt \<le> t0 + windowMs options"
      and n: "n \<le> length rs"
  shows "(snd (snd (run lg (checks_of options ((r0, t0) # rs)) st) ! n) = NextCalled
            \<longleftrightarrow> int n + 1 \<le> maxRequests options)
       \<and> (snd (snd (run lg (checks_of options ((r0, t0) # rs)) st) ! n) = NextCalled \<longrightarrow>
            remaining_of (fst (snd (run lg (checks_of options ((r0, t0) # rs)) st) ! n))
              = Some (maxRequests options - (int n + 1))
            \<and> 0 \<le> maxRequests options - (int n + 1))"
proof -
  let ?R = "rateLimit options lg st t0 r0 new_response"
  let ?rc = "\<lparr>count = 1, resetTime = t0 + windowMs options\<rparr>"
  have rec: "map_of (fst ?R) (key_of options r0) = Some ?rc"
    using first by (rule rateLimit_record_fresh)
  have unf: "snd (run lg (checks_of options ((r0, t0) # rs)) st)
                  = snd ?R # snd (run lg (checks_of options rs) (fst ?R))"
    by (simp add: checks_of_def split: prod.split)
  have main: "(snd (snd (run lg (checks_of options ((r0, t0) # rs)) st) ! n) = NextCalled
            \<longleftrightarrow> int n + 1 \<le> maxRequests options)
       \<and> (snd (snd (run lg (checks_of options ((r0, t0) # rs)) st) ! n) = NextCalled \<longrightarrow>
            remaining_of (fst (snd (run lg (checks_of options ((r0, t0) # rs)) st) ! n))
              = Some (max 0 (maxRequests options - (int n + 1))))"
  proof (cases n)
    case 0
    show ?thesis
      using rateLimit_outcome [OF rec] rateLimit_remaining [OF rec]
      by (simp add: unf 0)
  next
    case (Suc m)
    have rest': "\<forall>rt \<in> set rs. key_of options (fst rt) = key_of options r0
                   \<and> snd rt \<le> resetTime ?rc"
      using rest by simp
    have m: "m < length rs" using n Suc by simp
    show ?thesis
      using live_window_counts [OF rec rest' m, of lg]
      by (simp add: unf Suc add.commute add.left_commute)
  qed
  then show ?thesis by (auto simp: max_def)
qed

theorem nth_check_in_window_witness:
  "snd (snd (run quiet_logger (checks_of (mk_options 60000 3)
          ((request_from ''A'', 0) #
           [(request_from ''A'', 10), (request_from ''A'', 20), (request_from ''A'', 30)])) []) ! 2)
        = NextCalled
   \<and> remaining_of (fst (snd (run quiet_logger (checks_of (mk_options 60000 3)
          ((request_from ''A'', 0) #
           [(request_from ''A'', 10), (request_from ''A'', 20), (request_from ''A'', 30)])) []) ! 2))
        = Some 0
   \<and> snd (snd (run quiet_logger (checks_of (mk_options 60000 3)
          ((request_from ''A'', 0) #
           [(request_from ''A'', 10), (request_from ''A'', 20), (request_from ''A'', 30)])) []) ! 3)
        \<noteq> NextCalled"
proof -
  let ?rs = "[(request_from ''A'', 10), (request_from ''A'', 20), (request_from ''A'', 30)]"
  have h1: "\<forall>rc. map_of [] (key_of (mk_options 60000 3) (request_from ''A'')) = Some rc
          \<longrightarrow> resetTime rc < 0"
    by simp
  have h2: "\<forall>rt \<in> set ?rs.
          key_of (mk_options 60000 3) (fst rt) = key_of (mk_options 60000 3) (request_from ''A'')
          \<and> snd rt \<le> 0 + windowMs (mk_options 60000 3)"
    by (simp add: mk_options_def)
  have n2: "(2::nat) \<le> length ?rs" and n3: "(3::nat) \<le> length ?rs"
    by simp_all
  have m: "maxRequests (mk_options 60000 3) = 3"
    by (simp add: mk_options_def)
  show ?thesis
    using nth_check_in_window [OF h1 h2 n2, of quiet_logger]
      nth_check_in_window [OF h1 h2 n3, of quiet_logger]
    by (simp add: m)
qed

section \<open>The retry delay\<close>

lemma div_1000_superadd: "(a::int) div 1000 + b div 1000 \<le> (a + b) div 1000"
proof -
  have "(a + b) div 1000 = a div 1000 + b div 1000 + (a mod 1000 + b mod 1000) div 1000"
    by (rule div_add1_eq)
  moreover have "0 \<le> (a mod 1000 + b mod 1000) div 1000"
    by (simp add: pos_imp_zdiv_nonneg_iff)
  ultimately show ?thesis by linarith
qed

lemma ceil_div_1000_step:
  "ceil_div_1000 (r - t2) + (t2 - t1) div 1000 \<le> ceil_div_1000 (r - t1)"
proof -
  have "(t1 - r) div 1000 + (t2 - t1) div 1000 \<le> ((t1 - r) + (t2 - t1)) div 1000"
    by (rule div_1000_superadd)
  then have "(t1 - r) div 1000 + (t2 - t1) div 1000 \<le> (t2 - r) div 1000"
    by simp
  then show ?thesis by (simp add: ceil_div_1000_def)
qed

lemma ceil_div_1000_nonneg: "0 \<le> x \<Longrightarrow> 0 \<le> ceil_div_1000 x"
proof -
  assume "0 \<le> x"
  then have "(- x) div 1000 \<le> 0"
    by (simp add: div_nonpos_pos_le0)
  then show ?thesis by (simp add: ceil_div_1000_def)
qed

text \<open>
  Claim C6. Every call answered with 429 carries
  \<open>retryAfter = ceil ((resetTime - now) / 1000)\<close>, for the \<open>resetTime\<close> of the record
  of its key. When \<open>now \<le> resetTime\<close> the value is not negative. Of two such answers
  for windows ending at the same \<open>resetTime\<close>, the later one carries the smaller or equal
  value, and it is smaller by at least the whole seconds elapsed between the two.
\<close>

theorem retryAfter_ceiling_antitone:
  assumes d1: "rateLimit options1 lg1 st1 now1 req1 res1 = (st1', res1', Responded)"
      and d2: "rateLimit options2 lg2 st2 now2 req2 res2 = (st2', res2', Responded)"
      and r1: "map_of st1' (key_of options1 req1) = Some rc1"
      and r2: "map_of st2' (key_of options2 req2) = Some rc2"
      and same: "resetTime rc1 = resetTime rc2"
      and le: "now1 \<le> now2"
  shows "retryAfter_of res1' = Some \<lceil>real_of_int (resetTime rc1 - now1) / 1000\<rceil>
       \<and> retryAfter_of res2' = Some \<lceil>real_of_int (resetTime rc2 - now2) / 1000\<rceil>
       \<and> (now2 \<le> resetTime rc2 \<longrightarrow> 0 \<le> \<lceil>real_of_int (resetTime rc2 - now2) / 1000\<rceil>)
       \<and> \<lceil>real_of_int (resetTime rc2 - now2) / 1000\<rceil> + (now2 - now1) div 1000
            \<le> \<lceil>real_of_int (resetTime rc1 - now1) / 1000\<rceil>
       \<and> \<lceil>real_of_int (resetTime rc2 - now2) / 1000\<rceil>
            \<le> \<lceil>real_of_int (resetTime rc1 - now1) / 1000\<rceil>"
proof -
  have a: "retryAfter_of res1' = Some (ceil_div_1000 (resetTime rc1 - now1))"
    using rateLimit_retryAfter [of options1 lg1 st1 now1 req1 res1 rc1] d1 r1 by simp
  have b: "retryAfter_of res2' = Some (ceil_div_1000 (resetTime rc2 - now2))"
    using rateLimit_retryAfter [of options2 lg2 st2 now2 req2 res2 rc2] d2 r2 by simp
  have c: "now2 \<le> resetTime rc2 \<longrightarrow> 0 \<le> ceil_div_1000 (resetTime rc2 - now2)"
    by (simp add: ceil_div_1000_nonneg)
  have d: "ceil_div_1000 (resetTime rc2 - now2) + (now2 - now1) div 1000
             \<le> ceil_div_1000 (resetTime rc1 - now1)"
    using ceil_div_1000_step [of "resetTime rc2" now2 now1] same by simp
  have "0 \<le> (now2 - now1) div 1000"
    using le by (simp add: pos_imp_zdiv_nonneg_iff)
  with d have e: "ceil_div_1000 (resetTime rc2 - now2) \<le> ceil_div_1000 (resetTime rc1 - now1)"
    by linarith
  from a b c d e show ?thesis
    by (simp only: ceil_div_1000_ceiling [symmetric] simp_thms)
qed

theorem retryAfter_ceiling_antitone_witness:
  "rateLimit (mk_options 60000 3) quiet_logger [(''A'', \<lparr>count = 3, resetTime = 60000\<rparr>)] 30
       (request_from ''A'') new_response
     = ([(''A'', \<lparr>count = 4, resetTime = 60000\<rparr>)],
        \<lparr>statusCode = 429, headers = [],
         body = Some \<lparr>error = ''Too many requests'',
                      message = RateLimitExceededMessage 3 60000, retryAfter = 60\<rparr>\<rparr>,
        Responded)
   \<and> rateLimit (mk_options 60000 3) quiet_logger [(''A'', \<lparr>count = 4, resetTime = 60000\<rparr>)] 59001
       (request_from ''A'') new_response
     = ([(''A'', \<lparr>count = 5, resetTime = 60000\<rparr>)],
        \<lparr>statusCode = 429, headers = [],
         body = Some \<lparr>error = ''Too many requests'',
                      message = RateLimitExceededMessage 3 60000, retryAfter = 1\<rparr>\<rparr>,
        Responded)
   \<and> \<lceil>real_of_int (60000 - 30) / 1000\<rceil> = 60
   \<and> \<lceil>real_of_int (60000 - 59001) / 1000\<rceil> = 1
   \<and> (0::int) \<le> \<lceil>real_of_int (60000 - 59001) / 1000\<rceil>
   \<and> \<lceil>real_of_int (60000 - 59001) / 1000\<rceil> + (59001 - 30) div 1000
        \<le> \<lceil>real_of_int (60000 - 30) / 1000\<rceil>"
proof -
  let ?res1 = "\<lparr>statusCode = 429, headers = [],
         body = Some \<lparr>error = ''Too many requests'',
                      message = RateLimitExceededMessage 3 60000, retryAfter = 60\<rparr>\<rparr>"
  let ?res2 = "\<lparr>statusCode = 429, headers = [],
         body = Some \<lparr>error = ''Too many requests'',
                      message = RateLimitExceededMessage 3 60000, retryAfter = 1\<rparr>\<rparr>"
  have d1: "rateLimit (mk_options 60000 3) quiet_logger [(''A'', \<lparr>count = 3, resetTime = 60000\<rparr>)] 30
       (request_from ''A'') new_response
     = ([(''A'', \<lparr>count = 4, resetTime = 60000\<rparr>)], ?res1, Responded)"
    by (simp add: eval_defs)
  have d2: "rateLimit (mk_options 60000 3) quiet_logger [(''A'', \<lparr>count = 4, resetTime = 60000\<rparr>)] 59001
       (request_from ''A'') new_response
     = ([(''A'', \<lparr>count = 5, resetTime = 60000\<rparr>)], ?res2, Responded)"
    by (simp add: eval_defs)
  have r1: "map_of [(''A'', \<lparr>count = 4, resetTime = 60000\<rparr>)]
              (key_of (mk_options 60000 3) (request_from ''A''))
            = Some \<lparr>count = 4, resetTime = 60000\<rparr>"
    by (simp add: eval_defs)
  have r2: "map_of [(''A'', \<lparr>count = 5, resetTime = 60000\<rparr>)]
              (key_of (mk_options 60000 3) (request_from ''A''))
            = Some \<lparr>count = 5, resetTime = 60000\<rparr>"
    by (simp add: eval_defs)
  have same: "resetTime \<lparr>count = 4, resetTime = 60000\<rparr> = resetTime \<lparr>count = 5, resetTime = 60000\<rparr>"
    by simp
  have le: "(30::int) \<le> 59001" by simp
  note T = retryAfter_ceiling_antitone [OF d1 d2 r1 r2 same le]
  have v1: "\<lceil>real_of_int (60000 - 30) / 1000\<rceil> = 60"
    using T [THEN conjunct1] by (simp add: retryAfter_of_def)
  have v2: "\<lceil>real_of_int (60000 - 59001) / 1000\<rceil> = 1"
    using T [THEN conjunct2, THEN conjunct1] by (simp add: retryAfter_of_def)
  have v3: "(0::int) \<le> \<lceil>real_of_int (60000 - 59001) / 1000\<rceil>"
    using T [THEN conjunct2, THEN conjunct2, THEN conjunct1] by simp
  have v4: "\<lceil>real_of_int (60000 - 59001) / 1000\<rceil> + (59001 - 30) div 1000
        \<le> \<lceil>real_of_int (60000 - 30) / 1000\<rceil>"
    using T [THEN conjunct2, THEN conjunct2, THEN conjunct2, THEN conjunct1] by simp
  from d1 d2 v1 v2 v3 v4 show ?thesis by (intro conjI)
qed

section \<open>Failing collaborators\<close>

lemma rateLimit_record_count:
  "map_of (fst (rateLimit options lg st now req res)) (key_of options req) = Some rc \<Longrightarrow>
   rc = (fst (get_or_create (windowMs options) (key_of options req) now st))
          \<lparr>count := count (fst (get_or_create (windowMs options) (key_of options req) now st)) + 1\<rparr>"
  by (simp add: rateLimit_store update_conv')

text \<open>
  Claim C3 as stated: a throwing hook or a failing logger is caught inside the call and
  the decision is returned as if it had succeeded. The code has no \<^verbatim>\<open>try\<close>: with
  \<open>maxRequests = 0\<close> the first call is over the limit, and a throwing hook (or logger)
  ends the call with that exception and an untouched response, where the same call with
  a quiet hook (or logger) answers 429.
\<close>

theorem collaborator_failure_not_caught:
  "snd (rateLimit
          ((mk_options 60000 0)\<lparr>onRateLimitReached := Some (throwing_hook (Thrown ''audit''))\<rparr>)
          quiet_logger [] 0 (request_from ''A'') new_response)
     = (new_response, Rejected (Thrown ''audit''))
   \<and> snd (snd (rateLimit
          ((mk_options 60000 0)\<lparr>onRateLimitReached := Some quiet_hook\<rparr>)
          quiet_logger [] 0 (request_from ''A'') new_response))
     = Responded
   \<and> snd (rateLimit (mk_options 60000 0) (failing_logger (Thrown ''log''))
          [] 0 (request_from ''A'') new_response)
     = (new_response, Rejected (Thrown ''log''))
   \<and> snd (snd (rateLimit (mk_options 60000 0) quiet_logger
          [] 0 (request_from ''A'') new_response))
     = Responded"
  by (simp add: eval_defs)

text \<open>
  Claim C3, as amended. Let \<open>rc\<close> be the record of the key after the call. When its
  count exceeds \<open>maxRequests\<close> and \<^verbatim>\<open>logger.warn\<close> throws, the call ends with that
  exception and has not written to the response; when the logger returns and the hook
  throws, the call ends with the hook's exception; in both cases no 429 answer is sent.
  When the count does not exceed \<open>maxRequests\<close>, neither collaborator is called: the
  result is the same for every logger and every hook.
\<close>

theorem collaborator_failure_propagates:
  assumes rec: "map_of (fst (rateLimit options lg st now req res)) (key_of options req) = Some rc"
  shows "(maxRequests options < count rc
            \<and> lg (warn_event (key_of options req) (count rc) (maxRequests options)
                    (windowMs options) req) ''Rate limit exceeded'' = Some e
          \<longrightarrow> snd (rateLimit options lg st now req res) = (res, Rejected e))
       \<and> (maxRequests options < count rc
            \<and> lg (warn_event (key_of options req) (count rc) (maxRequests options)
                    (windowMs options) req) ''Rate limit exceeded'' = None
            \<and> onRateLimitReached options = Some h \<and> h req res = (res1, Some e)
          \<longrightarrow> snd (rateLimit options lg st now req res) = (res1, Rejected e))
       \<and> (count rc \<le> maxRequests options
          \<longrightarrow> rateLimit (options\<lparr>onRateLimitReached := h'\<rparr>) lg' st now req res
                = rateLimit options lg st now req res)"
proof -
  note rc = rateLimit_record_count [OF rec]
  have k: "key_of (options\<lparr>onRateLimitReached := h'\<rparr>) req = key_of options req"
    by (simp add: key_of_def)
  have a: "maxRequests options < count rc
            \<and> lg (warn_event (key_of options req) (count rc) (maxRequests options)
                    (windowMs options) req) ''Rate limit exceeded'' = Some e
          \<longrightarrow> snd (rateLimit options lg st now req res) = (res, Rejected e)"
    unfolding rc by (simp add: rateLimit_def Let_def)
  have b: "maxRequests options < count rc
            \<and> lg (warn_event (key_of options req) (count rc) (maxRequests options)
                    (windowMs options) req) ''Rate limit exceeded'' = None
            \<and> onRateLimitReached options = Some h \<and> h req res = (res1, Some e)
          \<longrightarrow> snd (rateLimit options lg st now req res) = (res1, Rejected e)"
    unfolding rc by (simp add: rateLimit_def Let_def)
  have c: "count rc \<le> maxRequests options
          \<longrightarrow> rateLimit (options\<lparr>onRateLimitReached := h'\<rparr>) lg' st now req res
                = rateLimit options lg st now req res"
    unfolding rc by (simp add: rateLimit_def Let_def k)
  from a b c show ?thesis by (intro conjI)
qed

theorem collaborator_failure_propagates_witness:
  "snd (rateLimit (mk_options 60000 0) (failing_logger (Thrown ''log'')) [] 0
          (request_from ''A'') new_response)
     = (new_response, Rejected (Thrown ''log''))
   \<and> snd (rateLimit
          ((mk_options 60000 0)\<lparr>onRateLimitReached := Some (throwing_hook (Thrown ''audit''))\<rparr>)
          quiet_logger [] 0 (request_from ''A'') new_response)
     = (new_response, Rejected (Thrown ''audit''))
   \<and> rateLimit
          ((mk_options 60000 3)\<lparr>onRateLimitReached := Some (throwing_hook (Thrown ''audit''))\<rparr>)
          (failing_logger (Thrown ''log'')) [] 0 (request_from ''A'') new_response
     = rateLimit (mk_options 60000 3) quiet_logger [] 0 (request_from ''A'') new_response"
proof -
  let ?rc = "\<lparr>count = 1, resetTime = 60000\<rparr>"
  let ?hooked = "(mk_options 60000 0)\<lparr>onRateLimitReached := Some (throwing_hook (Thrown ''audit''))\<rparr>"
  have rec1: "map_of (fst (rateLimit (mk_options 60000 0) (failing_logger (Thrown ''log'')) [] 0
                (request_from ''A'') new_response))
              (key_of (mk_options 60000 0) (request_from ''A'')) = Some ?rc"
    by (simp add: eval_defs)
  have rec2: "map_of (fst (rateLimit ?hooked quiet_logger [] 0 (request_from ''A'') new_response))
              (key_of ?hooked (request_from ''A'')) = Some ?rc"
    by (simp add: eval_defs)
  have rec3: "map_of (fst (rateLimit (mk_options 60000 3) quiet_logger [] 0
                (request_from ''A'') new_response))
              (key_of (mk_options 60000 3) (request_from ''A'')) = Some ?rc"
    by (simp add: eval_defs)
  have a: "snd (rateLimit (mk_options 60000 0) (failing_logger (Thrown ''log'')) [] 0
                (request_from ''A'') new_response)
             = (new_response, Rejected (Thrown ''log''))"
    by (rule collaborator_failure_propagates [OF rec1, THEN conjunct1, THEN mp])
       (simp add: mk_options_def failing_logger_def)
  have b: "snd (rateLimit ?hooked quiet_logger [] 0 (request_from ''A'') new_response)
             = (new_response, Rejected (Thrown ''audit''))"
    by (rule collaborator_failure_propagates
              [OF rec2, where h = "throwing_hook (Thrown ''audit'')",
               THEN conjunct2, THEN conjunct1, THEN mp])
       (simp add: mk_options_def quiet_logger_def throwing_hook_def)
  have c: "rateLimit
             ((mk_options 60000 3)\<lparr>onRateLimitReached := Some (throwing_hook (Thrown ''audit''))\<rparr>)
             (failing_logger (Thrown ''log'')) [] 0 (request_from ''A'') new_response
           = rateLimit (mk_options 60000 3) quiet_logger [] 0 (request_from ''A'') new_response"
    by (rule collaborator_failure_propagates
              [OF rec3, THEN conjunct2, THEN conjunct2, THEN mp])
       (simp add: mk_options_def)
  from a b c show ?thesis by (intro conjI)
qed

section \<open>Sweeping\<close>

lemma run_Check_fst:
  "fst (run lg (Check options req now # evs) st) =
     fst (run lg evs (fst (rateLimit options lg st now req new_response)))"
  by (simp split: prod.split)

lemma run_Check_snd:
  "snd (run lg (Check options req now # evs) st) =
     snd (rateLimit options lg st now req new_response)
       # snd (run lg evs (fst (rateLimit options lg st now req new_response)))"
  by (simp split: prod.split)

lemma map_of_sweep_entries:
  "map_of (sweep_entries now es st) k =
     (if \<exists>v. (k, v) \<in> set es \<and> resetTime v < now then None else map_of st k)"
proof (induction es arbitrary: st)
  case Nil
  show ?case by simp
next
  case (Cons e es)
  obtain key v where e: "e = (key, v)" by (cases e)
  show ?case
    unfolding e by (auto simp add: Cons.IH delete_conv')
qed

lemma sweep_keeps_only_stored:
  "map_of (sweep now st) k = Some rc \<Longrightarrow> map_of st k = Some rc \<and> now \<le> resetTime rc"
proof -
  assume a: "map_of (sweep now st) k = Some rc"
  have none: "\<not> (\<exists>v. (k, v) \<in> set st \<and> resetTime v < now)"
    using a by (auto simp add: sweep_def map_of_sweep_entries split: if_splits)
  have same: "map_of st k = Some rc"
    using a none by (simp add: sweep_def map_of_sweep_entries)
  then have "(k, rc) \<in> set st" by (rule map_of_SomeD)
  with none have "\<not> resetTime rc < now" by blast
  with same show ?thesis by simp
qed

lemma sweep_leaves_live:
  assumes "distinct (map fst st)" and "map_of st k = Some rc" and "now \<le> resetTime rc"
  shows "map_of (sweep now st) k = Some rc"
proof -
  have "\<And>v. (k, v) \<in> set st \<Longrightarrow> v = rc"
    using assms(1,2) by (simp add: map_of_eq_Some_iff)
  then have "\<not> (\<exists>v. (k, v) \<in> set st \<and> resetTime v < now)"
    using assms(3) by auto
  then show ?thesis
    using assms(2) by (simp add: sweep_def map_of_sweep_entries)
qed

lemma sweep_removes_expired:
  assumes "map_of st k = Some rc" and "resetTime rc < now"
  shows "map_of (sweep now st) k = None"
proof -
  have "(k, rc) \<in> set st" using assms(1) by (rule map_of_SomeD)
  then have "\<exists>v. (k, v) \<in> set st \<and> resetTime v < now" using assms(2) by blast
  then show ?thesis by (simp add: sweep_def map_of_sweep_entries)
qed

lemma sweep_absent: "map_of st k = None \<Longrightarrow> map_of (sweep now st) k = None"
  by (simp add: sweep_def map_of_sweep_entries)

lemma sweep_entries_distinct:
  "distinct (map fst st) \<Longrightarrow> distinct (map fst (sweep_entries now es st))"
proof (induction es arbitrary: st)
  case Nil
  then show ?case by simp
next
  case (Cons e es)
  obtain key v where e: "e = (key, v)" by (cases e)
  show ?case
    unfolding e using Cons.prems by (auto intro: Cons.IH simp add: distinct_delete)
qed

lemma sweep_distinct: "distinct (map fst st) \<Longrightarrow> distinct (map fst (sweep now st))"
  by (simp add: sweep_def sweep_entries_distinct)

lemma run_distinct:
  "distinct (map fst st) \<Longrightarrow> distinct (map fst (fst (run lg evs st)))"
proof (induction evs arbitrary: st)
  case Nil
  then show ?case by simp
next
  case (Cons e evs)
  show ?case
  proof (cases e)
    case (Check options req now)
    have "distinct (map fst (fst (rateLimit options lg st now req new_response)))"
      using Cons.prems by (rule rateLimit_distinct)
    then have "distinct (map fst (fst (run lg evs (fst (rateLimit options lg st now req new_response)))))"
      by (rule Cons.IH)
    then show ?thesis by (simp add: Check run_Check_fst del: run.simps)
  next
    case (Tick now)
    have "distinct (map fst (sweep now st))" using Cons.prems by (rule sweep_distinct)
    then show ?thesis by (simp add: Tick Cons.IH)
  qed
qed

lemma fst_run_append:
  "fst (run lg (evs @ evs') st) = fst (run lg evs' (fst (run lg evs st)))"
proof (induction evs arbitrary: st)
  case Nil
  show ?case by simp
next
  case (Cons e evs)
  show ?case by (cases e) (simp_all add: Cons.IH run_Check_fst del: run.simps(2))
qed

lemma last_seen_snoc_Check:
  "last_seen k (evs @ [Check options req now]) =
     (if key_of options req = k then Some now else last_seen k evs)"
proof (induction evs)
  case Nil
  show ?case by simp
next
  case (Cons e evs)
  show ?case by (cases e) (simp_all add: Cons.IH)
qed

lemma last_seen_snoc_Tick: "last_seen k (evs @ [Tick now]) = last_seen k evs"
proof (induction evs)
  case Nil
  show ?case by simp
next
  case (Cons e evs)
  show ?case by (cases e) (simp_all add: Cons.IH)
qed

lemma last_seen_time: "last_seen k evs = Some t \<Longrightarrow> t \<in> time_of ` set evs"
proof (induction evs)
  case Nil
  then show ?case by simp
next
  case (Cons e evs)
  then show ?case by (cases e) (auto split: option.splits if_splits)
qed

lemma run_resetTime_bound:
  "list_all (key_window_at_most k w) evs \<Longrightarrow> sorted (map time_of evs) \<Longrightarrow>
   map_of (fst (run lg evs [])) k = Some rc \<Longrightarrow>
   \<exists>t. last_seen k evs = Some t \<and> resetTime rc \<le> t + w"
proof (induction evs arbitrary: rc rule: rev_induct)
  case Nil
  then show ?case by simp
next
  case (snoc e evs)
  let ?st = "fst (run lg evs [])"
  from snoc.prems(1) have uw: "list_all (key_window_at_most k w) evs"
    and ue: "key_window_at_most k w e"
    by simp_all
  from snoc.prems(2) have so: "sorted (map time_of evs)"
    and later: "\<forall>t \<in> time_of ` set evs. t \<le> time_of e"
    by (auto simp add: sorted_append)
  note IH = snoc.IH [OF uw so]
  show ?case
  proof (cases e)
    case (Tick now)
    have "map_of (sweep now ?st) k = Some rc"
      using snoc.prems(3) by (simp add: Tick fst_run_append)
    then have "map_of ?st k = Some rc" by (rule sweep_keeps_only_stored [THEN conjunct1])
    then show ?thesis using IH by (simp add: Tick last_seen_snoc_Tick)
  next
    case (Check options req now)
    let ?st' = "fst (rateLimit options lg ?st now req new_response)"
    have after: "map_of ?st' k = Some rc"
      using snoc.prems(3) by (simp add: Check fst_run_append run_Check_fst del: run.simps(2))
    show ?thesis
    proof (cases "k = key_of options req")
      case False
      then have "map_of ?st k = Some rc"
        using after by (simp add: rateLimit_other_key)
      then show ?thesis using IH False by (auto simp add: Check last_seen_snoc_Check)
    next
      case True
      have w: "windowMs options \<le> w" using ue Check True by simp
      show ?thesis
      proof (cases "\<forall>rc0. map_of ?st (key_of options req) = Some rc0 \<longrightarrow> resetTime rc0 < now")
        case fresh: True
        have "map_of ?st' (key_of options req) = Some \<lparr>count = 1, resetTime = now + windowMs options\<rparr>"
          using fresh by (rule rateLimit_record_fresh)
        then have "resetTime rc = now + windowMs options" using after True by auto
        then have "resetTime rc \<le> now + w" using w by simp
        then show ?thesis by (simp add: Check last_seen_snoc_Check True)
      next
        case False
        then obtain rc0 where rc0: "map_of ?st (key_of options req) = Some rc0"
          and live: "now \<le> resetTime rc0" by auto
        have "map_of ?st' (key_of options req) = Some (rc0\<lparr>count := count rc0 + 1\<rparr>)"
          using rc0 live by (rule rateLimit_record_live)
        then have same: "resetTime rc = resetTime rc0" using after True by auto
        from IH [of rc0] rc0 True obtain t where t: "last_seen k evs = Some t"
          and bound: "resetTime rc0 \<le> t + w" by auto
        have "t \<le> now" using last_seen_time [OF t] later Check by auto
        then have "resetTime rc \<le> now + w" using same bound by simp
        then show ?thesis by (simp add: Check last_seen_snoc_Check True)
      qed
    qed
  qed
qed

text \<open>
  What holds for every store \<open>st\<close> reached from the empty store by any run of calls
  and ticks. After a tick at time \<open>now\<close>, every record in the store was there before and
  has \<open>resetTime \<ge> now\<close>; every record with \<open>now \<le> resetTime\<close> is still there,
  unchanged; and when every call of the run for the key \<open>k\<close> used a window length of at
  most \<open>w\<close> and the clock never went back, the key \<open>k\<close>, if its last call is more than
  \<open>w\<close> before \<open>now\<close> (or if it was never seen), has no record after the tick.
\<close>

theorem sweep_evicts_expired_and_idle:
  assumes reach: "st = fst (run lg evs [])"
  shows "(\<forall>k rc. map_of (sweep now st) k = Some rc \<longrightarrow>
            map_of st k = Some rc \<and> \<not> resetTime rc < now)
       \<and> (\<forall>k rc. map_of st k = Some rc \<and> now \<le> resetTime rc \<longrightarrow>
            map_of (sweep now st) k = Some rc)
       \<and> (\<forall>k w. list_all (key_window_at_most k w) evs \<and> sorted (map time_of evs)
                 \<and> (\<forall>t. last_seen k evs = Some t \<longrightarrow> w < now - t)
            \<longrightarrow> map_of (sweep now st) k = None)"
proof (intro conjI allI impI)
  fix k rc
  assume "map_of (sweep now st) k = Some rc"
  then have "map_of st k = Some rc \<and> now \<le> resetTime rc" by (rule sweep_keeps_only_stored)
  then show "map_of st k = Some rc" and "\<not> resetTime rc < now" by simp_all
next
  fix k rc
  assume a: "map_of st k = Some rc \<and> now \<le> resetTime rc"
  have "distinct (map fst st)" unfolding reach by (rule run_distinct) simp
  then show "map_of (sweep now st) k = Some rc" using a by (simp add: sweep_leaves_live)
next
  fix k w
  assume a: "list_all (key_window_at_most k w) evs \<and> sorted (map time_of evs)
                 \<and> (\<forall>t. last_seen k evs = Some t \<longrightarrow> w < now - t)"
  show "map_of (sweep now st) k = None"
  proof (cases "map_of st k")
    case None
    then show ?thesis by (rule sweep_absent)
  next
    case (Some rc)
    then have "map_of (fst (run lg evs [])) k = Some rc" by (simp add: reach)
    with a obtain t where t: "last_seen k evs = Some t" and b: "resetTime rc \<le> t + w"
      using run_resetTime_bound [of k w evs lg rc] by auto
    from a t have "w < now - t" by simp
    with b have "resetTime rc < now" by simp
    with Some show ?thesis by (rule sweep_removes_expired)
  qed
qed

theorem sweep_evicts_expired_and_idle_witness:
  "fst (run quiet_logger
          [Check (mk_options 1000 3) (request_from ''A'') 0,
           Check (mk_options 1000 3) (request_from ''B'') 500] [])
     = [(''A'', \<lparr>count = 1, resetTime = 1000\<rparr>), (''B'', \<lparr>count = 1, resetTime = 1500\<rparr>)]
   \<and> list_all (key_window_at_most ''A'' 1000)
          [Check (mk_options 1000 3) (request_from ''A'') 0,
           Check (mk_options 1000 3) (request_from ''B'') 500]
   \<and> sorted (map time_of
          [Check (mk_options 1000 3) (request_from ''A'') 0,
           Check (mk_options 1000 3) (request_from ''B'') 500])
   \<and> last_seen ''A''
          [Check (mk_options 1000 3) (request_from ''A'') 0,
           Check (mk_options 1000 3) (request_from ''B'') 500] = Some 0
   \<and> map_of (sweep 1200 [(''A'', \<lparr>count = 1, resetTime = 1000\<rparr>),
                          (''B'', \<lparr>count = 1, resetTime = 1500\<rparr>)]) ''A'' = None
   \<and> map_of (sweep 1200 [(''A'', \<lparr>count = 1, resetTime = 1000\<rparr>),
                          (''B'', \<lparr>count = 1, resetTime = 1500\<rparr>)]) ''B''
        = Some \<lparr>count = 1, resetTime = 1500\<rparr>"
proof -
  let ?evs = "[Check (mk_options 1000 3) (request_from ''A'') 0,
               Check (mk_options 1000 3) (request_from ''B'') 500]"
  let ?st = "[(''A'', \<lparr>count = 1, resetTime = 1000\<rparr>), (''B'', \<lparr>count = 1, resetTime = 1500\<rparr>)]"
  have reach: "?st = fst (run quiet_logger ?evs [])"
    by (simp add: eval_defs)
  have uw: "list_all (key_window_at_most ''A'' 1000) ?evs"
    by (simp add: mk_options_def)
  have so: "sorted (map time_of ?evs)"
    by simp
  have ls: "last_seen ''A'' ?evs = Some 0"
    by (simp add: eval_defs)
  have idle: "\<forall>t. last_seen ''A'' ?evs = Some t \<longrightarrow> 1000 < 1200 - t"
    unfolding ls by simp
  have stored: "map_of ?st ''B'' = Some \<lparr>count = 1, resetTime = 1500\<rparr>
                 \<and> 1200 \<le> resetTime \<lparr>count = 1, resetTime = 1500\<rparr>"
    by simp
  note T = sweep_evicts_expired_and_idle [OF reach, of 1200]
  have a: "map_of (sweep 1200 ?st) ''A'' = None"
    by (rule T [THEN conjunct2, THEN conjunct2, THEN spec, THEN spec, THEN mp,
                OF conjI [OF uw conjI [OF so idle]]])
  have b: "map_of (sweep 1200 ?st) ''B'' = Some \<lparr>count = 1, resetTime = 1500\<rparr>"
    by (rule T [THEN conjunct2, THEN conjunct1, THEN spec, THEN spec, THEN mp]) (rule stored)
  from reach [symmetric] uw so ls a b show ?thesis
    by (intro conjI)
qed

end
